theory Spec2Isabelle
  imports Main
begin

section \<open>The level engine of JGV (\<open>src/JGV/Level.py\<close>)\<close>

text \<open>
  The class \<open>Level\<close> computes, for each annotation feature it is called with, the
  row of the track on which the feature is drawn. Its attributes are the fields of the
  record \<open>Level\<close>; the method \<open>__call__\<close> mutates \<open>level_dict\<close> and
  \<open>count\<close>, so its model takes the instance and returns the new one together with
  the returned value. Coordinates, \<open>max_depth\<close> and \<open>offset\<close> are Python
  integers (\<open>int\<close>), identifiers and strands are strings.
\<close>

subsection \<open>Data\<close>

text \<open>
  The named tuple \<open>enhanced_feature\<close> with the fields \<open>ID\<close>, \<open>start\<close>,
  \<open>end\<close>, \<open>arrowstyle\<close> and \<open>level\<close>. The fields carry the prefix
  \<open>ef_\<close>, so that the names stay free for the arguments of \<open>__call__\<close>.
\<close>

record enhanced_feature =
  ef_ID :: string
  ef_start :: int
  ef_end :: int
  ef_arrowstyle :: string
  ef_level :: int

record Level =
  max_depth :: int
  offset :: int
  pos_arrowstyle :: string
  neg_arrowstyle :: string
  unstrand_arrowstyle :: string
  filter_pos :: bool
  filter_neg :: bool
  filter_unstrand :: bool
  level_dict :: "int \<rightharpoonup> int"
  count :: "string \<rightharpoonup> int"

text \<open>The only exception the body of \<open>__call__\<close> could raise: a dictionary read.\<close>

datatype py_error = KeyError

text \<open>\<open>d[k]\<close> on a \<open>dict\<close>: a missing key raises.\<close>

definition getitem :: "(int \<rightharpoonup> int) \<Rightarrow> int \<Rightarrow> py_error + int" where
  "getitem d k = (case d k of None \<Rightarrow> Inl KeyError | Some v \<Rightarrow> Inr v)"

text \<open>
  \<open>collections.Counter\<close>: reading a missing key gives 0, and \<open>c[k] += 1\<close>
  stores what was read plus one.
\<close>

definition counter_get :: "(string \<rightharpoonup> int) \<Rightarrow> string \<Rightarrow> int" where
  "counter_get c k = (case c k of None \<Rightarrow> 0 | Some n \<Rightarrow> n)"

definition counter_incr :: "(string \<rightharpoonup> int) \<Rightarrow> string \<Rightarrow> (string \<rightharpoonup> int)" where
  "counter_incr c k = c(k \<mapsto> counter_get c k + 1)"

subsection \<open>Construction\<close>

text \<open>\<open>__init__\<close>: the options are saved, both containers start empty.\<close>

definition Level_init :: "int \<Rightarrow> int \<Rightarrow> bool \<Rightarrow> bool \<Rightarrow> bool \<Rightarrow> Level" where
  "Level_init md off fp fn fu =
     \<lparr>max_depth = md, offset = off,
      pos_arrowstyle = ''-|>,head_width=1,head_length=2'',
      neg_arrowstyle = ''<|-,head_width=1,head_length=2'',
      unstrand_arrowstyle = ''-'',
      filter_pos = fp, filter_neg = fn, filter_unstrand = fu,
      level_dict = Map.empty, count = Map.empty\<rparr>"

text \<open>The defaults of the keyword arguments of \<open>__init__\<close>.\<close>

definition Level_default :: Level where
  "Level_default = Level_init 10 10 False False True"

subsection \<open>\<open>__call__\<close>\<close>

text \<open>
  The test of both \<open>while\<close> statements,
  \<open>level not in self.level_dict or (self.level_dict[level]+self.offset) < start\<close>.
  The right operand of \<open>or\<close> is evaluated only when the left one is false.
\<close>

definition level_free :: "Level \<Rightarrow> int \<Rightarrow> int \<Rightarrow> py_error + bool" where
  "level_free s level start =
     (if level_dict s level = None then Inr True
      else case getitem (level_dict s) level of
             Inl e \<Rightarrow> Inl e
           | Inr v \<Rightarrow> Inr (v + offset s < start))"

text \<open>
  The loop \<open>while level <= self.max_depth\<close> of the positive strand. A free level
  is taken and the feature returned from inside the loop; when the loop runs out, control
  reaches the \<open>return None\<close> that ends the method.
\<close>

function pos_loop ::
  "Level \<Rightarrow> string \<Rightarrow> int \<Rightarrow> int \<Rightarrow> int \<Rightarrow> py_error + (enhanced_feature option \<times> Level)" where
  "pos_loop s ID start end' level =
     (if level \<le> max_depth s then
        (case level_free s level start of
           Inl e \<Rightarrow> Inl e
         | Inr free \<Rightarrow>
             if free then
               Inr (Some \<lparr>ef_ID = ID, ef_start = start, ef_end = end',
                          ef_arrowstyle = pos_arrowstyle s, ef_level = level\<rparr>,
                    s\<lparr>level_dict := (level_dict s)(level \<mapsto> end')\<rparr>)
             else pos_loop s ID start end' (level + 1))
      else Inr (None, s))"
  by pat_completeness auto
termination
  by (relation "measure (\<lambda>(s, ID, start, end', level). nat (max_depth s + 1 - level))") auto

declare pos_loop.simps [simp del]

text \<open>The loop \<open>while level >= -self.max_depth\<close> of the negative strand.\<close>

function neg_loop ::
  "Level \<Rightarrow> string \<Rightarrow> int \<Rightarrow> int \<Rightarrow> int \<Rightarrow> py_error + (enhanced_feature option \<times> Level)" where
  "neg_loop s ID start end' level =
     (if level \<ge> - max_depth s then
        (case level_free s level start of
           Inl e \<Rightarrow> Inl e
         | Inr free \<Rightarrow>
             if free then
               Inr (Some \<lparr>ef_ID = ID, ef_start = start, ef_end = end',
                          ef_arrowstyle = neg_arrowstyle s, ef_level = level\<rparr>,
                    s\<lparr>level_dict := (level_dict s)(level \<mapsto> end')\<rparr>)
             else neg_loop s ID start end' (level - 1))
      else Inr (None, s))"
  by pat_completeness auto
termination
  by (relation "measure (\<lambda>(s, ID, start, end', level). nat (level + max_depth s + 1))") auto

declare neg_loop.simps [simp del]

text \<open>
  \<open>__call__(self, ID, start, end, strand)\<close>: the counter of all features first, then
  the dispatch on the strand and the filters, in the order of the \<open>if\<close>/\<open>elif\<close>
  chain; a call that enters no branch returns \<open>None\<close>.
\<close>

definition call ::
  "Level \<Rightarrow> string \<Rightarrow> int \<Rightarrow> int \<Rightarrow> string \<Rightarrow> py_error + (enhanced_feature option \<times> Level)" where
  "call self ID start end' strand =
     (let s = self\<lparr>count := counter_incr (count self) ''all_features''\<rparr> in
      if strand = ''+'' \<and> \<not> filter_pos s then
        pos_loop (s\<lparr>count := counter_incr (count s) ''positive_features''\<rparr>) ID start end' 1
      else if strand = ''-'' \<and> \<not> filter_neg s then
        neg_loop (s\<lparr>count := counter_incr (count s) ''negative_features''\<rparr>) ID start end' (- 1)
      else if strand = ''.'' \<and> \<not> filter_unstrand s then
        (let s1 = s\<lparr>count := counter_incr (count s) ''unstranded_features''\<rparr>;
             s2 = s1\<lparr>level_dict := (level_dict s1)(0 \<mapsto> end')\<rparr>
         in Inr (Some \<lparr>ef_ID = ID, ef_start = start, ef_end = end',
                       ef_arrowstyle = unstrand_arrowstyle s2, ef_level = 0\<rparr>, s2))
      else Inr (None, s))"

subsection \<open>Successive calls on one instance\<close>

text \<open>
  The arguments of one call are a tuple \<open>(ID, start, end, strand)\<close>. \<open>calls\<close> makes
  the calls of a list one after the other on the same instance, each on the instance as
  the call before left it, and collects what they return; an exception would end the
  sequence.
\<close>

type_synonym call_args = "string \<times> int \<times> int \<times> string"

fun calls :: "Level \<Rightarrow> call_args list \<Rightarrow> py_error + (enhanced_feature option list \<times> Level)" where
  "calls s [] = Inr ([], s)"
| "calls s ((ID, start, end', strand) # cs) =
     (case call s ID start end' strand of
        Inl e \<Rightarrow> Inl e
      | Inr (r, s') \<Rightarrow>
          (case calls s' cs of
             Inl e \<Rightarrow> Inl e
           | Inr (rs, s'') \<Rightarrow> Inr (r # rs, s'')))"

text \<open>
  The end of the feature that a list of returned values, in call order, assigned to the
  level \<open>L\<close> last, if there is one.
\<close>

fun last_end_on :: "int \<Rightarrow> enhanced_feature option list \<Rightarrow> int option" where
  "last_end_on L [] = None"
| "last_end_on L (r # rs) =
     (case last_end_on L rs of
        Some e \<Rightarrow> Some e
      | None \<Rightarrow>
          (case r of
             None \<Rightarrow> None
           | Some ef \<Rightarrow> if ef_level ef = L then Some (ef_end ef) else None))"

text \<open>The classes of calls that the three class counters count.\<close>

definition enters_pos :: "Level \<Rightarrow> call_args \<Rightarrow> bool" where
  "enters_pos s c = (case c of (ID, start, end', strand) \<Rightarrow> strand = ''+'' \<and> \<not> filter_pos s)"

definition enters_neg :: "Level \<Rightarrow> call_args \<Rightarrow> bool" where
  "enters_neg s c = (case c of (ID, start, end', strand) \<Rightarrow> strand = ''-'' \<and> \<not> filter_neg s)"

definition enters_unstrand :: "Level \<Rightarrow> call_args \<Rightarrow> bool" where
  "enters_unstrand s c =
     (case c of (ID, start, end', strand) \<Rightarrow> strand = ''.'' \<and> \<not> filter_unstrand s)"

subsection \<open>The scan as the specification words it\<close>

text \<open>
  A level is eligible for a feature if it has no recorded end yet, or if its recorded end
  plus the offset is less than the start of the feature.
\<close>

definition spec_eligible :: "Level \<Rightarrow> int \<Rightarrow> int \<Rightarrow> bool" where
  "spec_eligible s start L =
     (case level_dict s L of
        None \<Rightarrow> True
      | Some recorded_end \<Rightarrow> recorded_end + offset s < start)"

text \<open>
  The scan of a pool of levels, given in the order of the scan: the feature goes to the
  first eligible level, whose recorded end becomes the end of the feature, and is returned
  with the style of the pool and that level; with no eligible level nothing is returned
  and nothing recorded.
\<close>

definition spec_scan ::
  "Level \<Rightarrow> int list \<Rightarrow> string \<Rightarrow> string \<Rightarrow> int \<Rightarrow> int \<Rightarrow> enhanced_feature option \<times> Level" where
  "spec_scan s levels style ID start end' =
     (case find (spec_eligible s start) levels of
        None \<Rightarrow> (None, s)
      | Some L \<Rightarrow>
          (Some \<lparr>ef_ID = ID, ef_start = start, ef_end = end',
                 ef_arrowstyle = style, ef_level = L\<rparr>,
           s\<lparr>level_dict := (level_dict s)(L \<mapsto> end')\<rparr>))"

section \<open>Properties\<close>

subsection \<open>The two scans\<close>

text \<open>The guarded read never raises: the test of each scan is the eligibility of the level.\<close>

lemma level_free_eligible: "level_free s level start = Inr (spec_eligible s start level)"
  by (simp add: level_free_def getitem_def spec_eligible_def split: option.splits)

text \<open>Started at \<open>level\<close>, the positive loop scans \<open>level, level + 1, \<dots>, max_depth\<close>.\<close>

lemma pos_loop_scan:
  "pos_loop s ID start end' level =
     Inr (spec_scan s [level..max_depth s] (pos_arrowstyle s) ID start end')"
proof (induction s ID start end' level rule: pos_loop.induct)
  case (1 s ID start end' level)
  show ?case
  proof (cases "level \<le> max_depth s")
    case False
    then show ?thesis
      by (subst pos_loop.simps) (simp add: spec_scan_def)
  next
    case True
    then have up: "[level..max_depth s] = level # [level + 1..max_depth s]"
      by (simp add: upto_rec1)
    show ?thesis
    proof (cases "spec_eligible s start level")
      case True
      with \<open>level \<le> max_depth s\<close> up show ?thesis
        by (subst pos_loop.simps) (simp add: level_free_eligible spec_scan_def)
    next
      case False
      with \<open>level \<le> max_depth s\<close> up "1.IH" [OF \<open>level \<le> max_depth s\<close> level_free_eligible False]
      show ?thesis
        by (subst pos_loop.simps) (simp add: level_free_eligible spec_scan_def)
    qed
  qed
qed

text \<open>Started at \<open>level\<close>, the negative loop scans \<open>level, level - 1, \<dots>, - max_depth\<close>.\<close>

lemma neg_loop_scan:
  "neg_loop s ID start end' level =
     Inr (spec_scan s (map uminus [- level..max_depth s]) (neg_arrowstyle s) ID start end')"
proof (induction s ID start end' level rule: neg_loop.induct)
  case (1 s ID start end' level)
  show ?case
  proof (cases "- max_depth s \<le> level")
    case False
    then show ?thesis
      by (subst neg_loop.simps) (simp add: spec_scan_def)
  next
    case True
    then have up: "[- level..max_depth s] = - level # [- (level - 1)..max_depth s]"
      by (simp add: upto_rec1)
    show ?thesis
    proof (cases "spec_eligible s start level")
      case True
      with \<open>- max_depth s \<le> level\<close> up show ?thesis
        by (subst neg_loop.simps) (simp add: level_free_eligible spec_scan_def)
    next
      case False
      with \<open>- max_depth s \<le> level\<close> up "1.IH" [OF \<open>- max_depth s \<le> level\<close> level_free_eligible False]
      show ?thesis
        by (subst neg_loop.simps) (simp add: level_free_eligible spec_scan_def)
    qed
  qed
qed

subsection \<open>One call, branch by branch\<close>

lemma call_pos:
  assumes "strand = ''+''" and "\<not> filter_pos s"
  shows "call s ID start end' strand =
     Inr (spec_scan
            (s\<lparr>count := counter_incr (counter_incr (count s) ''all_features'') ''positive_features''\<rparr>)
            [1..max_depth s] (pos_arrowstyle s) ID start end')"
  using assms unfolding call_def Let_def pos_loop_scan by simp

lemma call_neg:
  assumes "strand = ''-''" and "\<not> filter_neg s"
  shows "call s ID start end' strand =
     Inr (spec_scan
            (s\<lparr>count := counter_incr (counter_incr (count s) ''all_features'') ''negative_features''\<rparr>)
            (map uminus [1..max_depth s]) (neg_arrowstyle s) ID start end')"
  using assms unfolding call_def Let_def neg_loop_scan by simp

lemma call_unstrand:
  assumes "strand = ''.''" and "\<not> filter_unstrand s"
  shows "call s ID start end' strand =
     Inr (Some \<lparr>ef_ID = ID, ef_start = start, ef_end = end',
                ef_arrowstyle = unstrand_arrowstyle s, ef_level = 0\<rparr>,
          s\<lparr>count := counter_incr (counter_incr (count s) ''all_features'') ''unstranded_features'',
            level_dict := (level_dict s)(0 \<mapsto> end')\<rparr>)"
  using assms unfolding call_def Let_def by simp

lemma call_none:
  assumes "strand = ''+'' \<longrightarrow> filter_pos s" and "strand = ''-'' \<longrightarrow> filter_neg s"
    and "strand = ''.'' \<longrightarrow> filter_unstrand s"
  shows "call s ID start end' strand = Inr (None, s\<lparr>count := counter_incr (count s) ''all_features''\<rparr>)"
  using assms unfolding call_def Let_def by auto

lemma find_SomeD: "find P xs = Some x \<Longrightarrow> P x \<and> x \<in> set xs"
  by (induction xs) (auto split: if_splits)

lemma spec_eligible_count [simp]: "spec_eligible (s\<lparr>count := c\<rparr>) start L = spec_eligible s start L"
  by (simp add: spec_eligible_def split: option.splits)

lemma spec_scan_SomeD:
  assumes "spec_scan s levels style ID start end' = (Some ef, s')"
  obtains L where "L \<in> set levels" and "spec_eligible s start L"
    and "ef = \<lparr>ef_ID = ID, ef_start = start, ef_end = end', ef_arrowstyle = style, ef_level = L\<rparr>"
    and "s' = s\<lparr>level_dict := (level_dict s)(L \<mapsto> end')\<rparr>"
  using assms by (auto simp: spec_scan_def split: option.splits dest: find_SomeD)

lemma spec_scan_NoneD:
  assumes "spec_scan s levels style ID start end' = (None, s')"
  shows "s' = s"
  using assms by (auto simp: spec_scan_def split: option.splits)

text \<open>What a call that returns a feature has done.\<close>

lemma call_SomeD:
  assumes "call s ID start end' strand = Inr (Some ef, s')"
  shows "ef_ID ef = ID \<and> ef_start ef = start \<and> ef_end ef = end'"
    and "level_dict s' = (level_dict s)(ef_level ef \<mapsto> end')"
    and "strand = ''+'' \<and> \<not> filter_pos s \<and> ef_level ef \<in> {1..max_depth s} \<and>
           spec_eligible s start (ef_level ef) \<and> ef_arrowstyle ef = pos_arrowstyle s \<or>
         strand = ''-'' \<and> \<not> filter_neg s \<and> ef_level ef \<in> {- max_depth s..- 1} \<and>
           spec_eligible s start (ef_level ef) \<and> ef_arrowstyle ef = neg_arrowstyle s \<or>
         strand = ''.'' \<and> \<not> filter_unstrand s \<and> ef_level ef = 0 \<and>
           ef_arrowstyle ef = unstrand_arrowstyle s"
proof -
  consider (pos) "strand = ''+''" "\<not> filter_pos s"
    | (neg) "strand = ''-''" "\<not> filter_neg s"
    | (unstrand) "strand = ''.''" "\<not> filter_unstrand s"
    | (none) "strand = ''+'' \<longrightarrow> filter_pos s" "strand = ''-'' \<longrightarrow> filter_neg s"
        "strand = ''.'' \<longrightarrow> filter_unstrand s"
    by blast
  then have "(ef_ID ef = ID \<and> ef_start ef = start \<and> ef_end ef = end') \<and>
    level_dict s' = (level_dict s)(ef_level ef \<mapsto> end') \<and>
    (strand = ''+'' \<and> \<not> filter_pos s \<and> ef_level ef \<in> {1..max_depth s} \<and>
           spec_eligible s start (ef_level ef) \<and> ef_arrowstyle ef = pos_arrowstyle s \<or>
         strand = ''-'' \<and> \<not> filter_neg s \<and> ef_level ef \<in> {- max_depth s..- 1} \<and>
           spec_eligible s start (ef_level ef) \<and> ef_arrowstyle ef = neg_arrowstyle s \<or>
         strand = ''.'' \<and> \<not> filter_unstrand s \<and> ef_level ef = 0 \<and>
           ef_arrowstyle ef = unstrand_arrowstyle s)"
  proof cases
    case pos
    from assms have sc: "spec_scan
            (s\<lparr>count := counter_incr (counter_incr (count s) ''all_features'') ''positive_features''\<rparr>)
            [1..max_depth s] (pos_arrowstyle s) ID start end' = (Some ef, s')"
      by (simp add: call_pos [OF pos])
    from sc obtain L where "L \<in> set [1..max_depth s]" and "spec_eligible s start L"
      and "ef = \<lparr>ef_ID = ID, ef_start = start, ef_end = end',
                 ef_arrowstyle = pos_arrowstyle s, ef_level = L\<rparr>"
      and "s' = s\<lparr>count := counter_incr (counter_incr (count s) ''all_features'') ''positive_features'',
                    level_dict := (level_dict s)(L \<mapsto> end')\<rparr>"
      by (rule spec_scan_SomeD) simp
    with pos show ?thesis by simp
  next
    case neg
    from assms have sc: "spec_scan
            (s\<lparr>count := counter_incr (counter_incr (count s) ''all_features'') ''negative_features''\<rparr>)
            (map uminus [1..max_depth s]) (neg_arrowstyle s) ID start end' = (Some ef, s')"
      by (simp add: call_neg [OF neg])
    from sc obtain L where "L \<in> set (map uminus [1..max_depth s])" and "spec_eligible s start L"
      and "ef = \<lparr>ef_ID = ID, ef_start = start, ef_end = end',
                 ef_arrowstyle = neg_arrowstyle s, ef_level = L\<rparr>"
      and "s' = s\<lparr>count := counter_incr (counter_incr (count s) ''all_features'') ''negative_features'',
                    level_dict := (level_dict s)(L \<mapsto> end')\<rparr>"
      by (rule spec_scan_SomeD) simp
    with neg show ?thesis by auto
  next
    case unstrand
    from assms unstrand show ?thesis
      unfolding call_unstrand [OF unstrand] by auto
  next
    case none
    from assms show ?thesis
      unfolding call_none [OF none] by simp
  qed
  then show "ef_ID ef = ID \<and> ef_start ef = start \<and> ef_end ef = end'"
    and "level_dict s' = (level_dict s)(ef_level ef \<mapsto> end')"
    and "strand = ''+'' \<and> \<not> filter_pos s \<and> ef_level ef \<in> {1..max_depth s} \<and>
           spec_eligible s start (ef_level ef) \<and> ef_arrowstyle ef = pos_arrowstyle s \<or>
         strand = ''-'' \<and> \<not> filter_neg s \<and> ef_level ef \<in> {- max_depth s..- 1} \<and>
           spec_eligible s start (ef_level ef) \<and> ef_arrowstyle ef = neg_arrowstyle s \<or>
         strand = ''.'' \<and> \<not> filter_unstrand s \<and> ef_level ef = 0 \<and>
           ef_arrowstyle ef = unstrand_arrowstyle s"
    by blast+
qed

text \<open>Reading a counter after an increment.\<close>

lemma counter_get_incr:
  "counter_get (counter_incr c k) k' = (if k' = k then counter_get c k + 1 else counter_get c k')"
  by (simp add: counter_incr_def counter_get_def)

subsection \<open>The instance after a call, and after a sequence of calls\<close>

text \<open>
  A call changes \<open>count\<close> and \<open>level_dict\<close> only: the counters by the branch it
  enters, the level map by the feature it returns.
\<close>

lemma call_state:
  assumes "call s ID start end' strand = Inr (r, s')"
  shows "s' = s\<lparr>count :=
                  (if strand = ''+'' \<and> \<not> filter_pos s then
                     counter_incr (counter_incr (count s) ''all_features'') ''positive_features''
                   else if strand = ''-'' \<and> \<not> filter_neg s then
                     counter_incr (counter_incr (count s) ''all_features'') ''negative_features''
                   else if strand = ''.'' \<and> \<not> filter_unstrand s then
                     counter_incr (counter_incr (count s) ''all_features'') ''unstranded_features''
                   else counter_incr (count s) ''all_features''),
                level_dict :=
                  (case r of
                     None \<Rightarrow> level_dict s
                   | Some ef \<Rightarrow> (level_dict s)(ef_level ef \<mapsto> ef_end ef))\<rparr>"
proof -
  consider (pos) "strand = ''+''" "\<not> filter_pos s"
    | (neg) "strand = ''-''" "\<not> filter_neg s"
    | (unstrand) "strand = ''.''" "\<not> filter_unstrand s"
    | (none) "strand = ''+'' \<longrightarrow> filter_pos s" "strand = ''-'' \<longrightarrow> filter_neg s"
        "strand = ''.'' \<longrightarrow> filter_unstrand s"
    by blast
  then show ?thesis
  proof cases
    case pos
    from assms pos show ?thesis
      unfolding call_pos [OF pos] by (auto simp: spec_scan_def split: option.splits)
  next
    case neg
    from assms neg show ?thesis
      unfolding call_neg [OF neg] by (auto simp: spec_scan_def split: option.splits)
  next
    case unstrand
    from assms unstrand show ?thesis
      unfolding call_unstrand [OF unstrand] by auto
  next
    case none
    from assms none show ?thesis
      unfolding call_none [OF none] by auto
  qed
qed

lemma call_offset: "call s ID start end' strand = Inr (r, s') \<Longrightarrow> offset s' = offset s"
  by (drule call_state) simp

lemma call_filters:
  assumes "call s ID start end' strand = Inr (r, s')"
  shows "filter_pos s' = filter_pos s" and "filter_neg s' = filter_neg s"
    and "filter_unstrand s' = filter_unstrand s"
  using call_state [OF assms] by simp_all

lemma call_level_dict:
  assumes "call s ID start end' strand = Inr (r, s')"
  shows "level_dict s' =
           (case r of None \<Rightarrow> level_dict s | Some ef \<Rightarrow> (level_dict s)(ef_level ef \<mapsto> ef_end ef))"
  using call_state [OF assms] by simp

lemma call_count:
  assumes "call s ID start end' strand = Inr (r, s')"
  shows "counter_get (count s') ''all_features'' = counter_get (count s) ''all_features'' + 1"
    and "counter_get (count s') ''positive_features'' =
           counter_get (count s) ''positive_features'' +
           (if enters_pos s (ID, start, end', strand) then 1 else 0)"
    and "counter_get (count s') ''negative_features'' =
           counter_get (count s) ''negative_features'' +
           (if enters_neg s (ID, start, end', strand) then 1 else 0)"
    and "counter_get (count s') ''unstranded_features'' =
           counter_get (count s) ''unstranded_features'' +
           (if enters_unstrand s (ID, start, end', strand) then 1 else 0)"
  using call_state [OF assms]
  by (simp_all add: counter_get_incr enters_pos_def enters_neg_def enters_unstrand_def)

text \<open>A call returns, whatever it is given.\<close>

lemma call_Inr: "\<exists>r s'. call s ID start end' strand = Inr (r, s')"
proof -
  consider (pos) "strand = ''+''" "\<not> filter_pos s"
    | (neg) "strand = ''-''" "\<not> filter_neg s"
    | (unstrand) "strand = ''.''" "\<not> filter_unstrand s"
    | (none) "strand = ''+'' \<longrightarrow> filter_pos s" "strand = ''-'' \<longrightarrow> filter_neg s"
        "strand = ''.'' \<longrightarrow> filter_unstrand s"
    by blast
  then show ?thesis
  proof cases
    case pos
    show ?thesis unfolding call_pos [OF pos] by (metis surj_pair)
  next
    case neg
    show ?thesis unfolding call_neg [OF neg] by (metis surj_pair)
  next
    case unstrand
    show ?thesis unfolding call_unstrand [OF unstrand] by blast
  next
    case none
    show ?thesis unfolding call_none [OF none] by blast
  qed
qed

lemma calls_Cons:
  assumes "calls s ((ID, start, end', strand) # cs) = Inr (rs, s'')"
  obtains r s' rs' where "call s ID start end' strand = Inr (r, s')"
    and "calls s' cs = Inr (rs', s'')" and "rs = r # rs'"
  using assms by (auto split: sum.splits prod.splits)

lemma calls_Inr: "\<exists>rs s'. calls s cs = Inr (rs, s')"
proof (induction cs arbitrary: s)
  case Nil
  show ?case by simp
next
  case (Cons c cs)
  obtain ID start end' strand where c: "c = (ID, start, end', strand)"
    by (cases c) auto
  obtain r s1 where r: "call s ID start end' strand = Inr (r, s1)"
    using call_Inr by blast
  obtain rs s2 where "calls s1 cs = Inr (rs, s2)"
    using Cons.IH by blast
  with c r show ?case by simp
qed

lemma calls_offset: "calls s cs = Inr (rs, s') \<Longrightarrow> offset s' = offset s"
proof (induction cs arbitrary: s rs)
  case Nil
  then show ?case by simp
next
  case (Cons c cs)
  obtain ID start end' strand where c: "c = (ID, start, end', strand)"
    by (cases c) auto
  from Cons.prems obtain r s1 rs' where "call s ID start end' strand = Inr (r, s1)"
    and "calls s1 cs = Inr (rs', s')"
    unfolding c by (rule calls_Cons)
  then show ?case
    using Cons.IH call_offset by metis
qed

text \<open>
  After a sequence of calls a level holds the end of the feature assigned to it last, or
  what it held before when no feature was.
\<close>

lemma calls_level_dict:
  "calls s cs = Inr (rs, s') \<Longrightarrow>
     level_dict s' L = (case last_end_on L rs of Some e \<Rightarrow> Some e | None \<Rightarrow> level_dict s L)"
proof (induction cs arbitrary: s rs)
  case Nil
  then show ?case by auto
next
  case (Cons c cs)
  obtain ID start end' strand where c: "c = (ID, start, end', strand)"
    by (cases c) auto
  from Cons.prems obtain r s1 rs' where r: "call s ID start end' strand = Inr (r, s1)"
    and rs': "calls s1 cs = Inr (rs', s')" and rs: "rs = r # rs'"
    unfolding c by (rule calls_Cons)
  have "level_dict s' L =
      (case last_end_on L rs' of Some e \<Rightarrow> Some e | None \<Rightarrow> level_dict s1 L)"
    using rs' by (rule Cons.IH)
  then show ?case
    by (simp add: rs call_level_dict [OF r] split: option.splits)
qed

lemma last_end_on_mem:
  "Some ef \<in> set rs \<Longrightarrow> \<exists>e. last_end_on (ef_level ef) rs = Some e"
  by (induction rs) (auto split: option.splits)

lemma calls_filters:
  "calls s cs = Inr (rs, s') \<Longrightarrow>
     filter_pos s' = filter_pos s \<and> filter_neg s' = filter_neg s \<and>
     filter_unstrand s' = filter_unstrand s"
proof (induction cs arbitrary: s rs)
  case Nil
  then show ?case by simp
next
  case (Cons c cs)
  obtain ID start end' strand where c: "c = (ID, start, end', strand)"
    by (cases c) auto
  from Cons.prems obtain r s1 rs' where r: "call s ID start end' strand = Inr (r, s1)"
    and rs': "calls s1 cs = Inr (rs', s')"
    unfolding c by (rule calls_Cons)
  from Cons.IH [OF rs'] call_filters [OF r] show ?case
    by simp
qed

lemma enters_filters:
  assumes "filter_pos s' = filter_pos s" and "filter_neg s' = filter_neg s"
    and "filter_unstrand s' = filter_unstrand s"
  shows "enters_pos s' = enters_pos s" and "enters_neg s' = enters_neg s"
    and "enters_unstrand s' = enters_unstrand s"
  using assms by (simp_all add: enters_pos_def enters_neg_def enters_unstrand_def fun_eq_iff)

text \<open>The four counters after a sequence of calls.\<close>

lemma calls_count:
  assumes "calls s cs = Inr (rs, s')"
  shows "counter_get (count s') ''all_features'' =
           counter_get (count s) ''all_features'' + int (length cs) \<and>
         counter_get (count s') ''positive_features'' =
           counter_get (count s) ''positive_features'' + int (length (filter (enters_pos s) cs)) \<and>
         counter_get (count s') ''negative_features'' =
           counter_get (count s) ''negative_features'' + int (length (filter (enters_neg s) cs)) \<and>
         counter_get (count s') ''unstranded_features'' =
           counter_get (count s) ''unstranded_features'' +
           int (length (filter (enters_unstrand s) cs))"
  using assms
proof (induction cs arbitrary: s rs)
  case Nil
  then show ?case by simp
next
  case (Cons c cs)
  obtain ID start end' strand where c: "c = (ID, start, end', strand)"
    by (cases c) auto
  from Cons.prems obtain r s1 rs' where r: "call s ID start end' strand = Inr (r, s1)"
    and rs': "calls s1 cs = Inr (rs', s')"
    unfolding c by (rule calls_Cons)
  note f = call_filters [OF r]
  note e = enters_filters [OF f]
  from Cons.IH [OF rs'] call_count [OF r] show ?case
    by (simp add: c e)
qed

text \<open>
  One call keeps every key of the level map, and on a level other than 0 it does not
  lower the recorded end when the offset is not negative and the feature does not end
  before it starts.
\<close>

lemma call_level_dict_mono:
  assumes "call s ID start end' strand = Inr (r, s')"
  shows "dom (level_dict s) \<subseteq> dom (level_dict s')"
    and "0 \<le> offset s \<Longrightarrow> start \<le> end' \<Longrightarrow> L \<noteq> 0 \<Longrightarrow> level_dict s L = Some e \<Longrightarrow>
           \<exists>e'. level_dict s' L = Some e' \<and> e \<le> e'"
proof -
  show "dom (level_dict s) \<subseteq> dom (level_dict s')"
    unfolding call_level_dict [OF assms] by (auto split: option.splits)
next
  assume o: "0 \<le> offset s" and w: "start \<le> end'" and L: "L \<noteq> 0" and e: "level_dict s L = Some e"
  show "\<exists>e'. level_dict s' L = Some e' \<and> e \<le> e'"
  proof (cases r)
    case None
    with e show ?thesis
      unfolding call_level_dict [OF assms] by simp
  next
    case (Some ef)
    show ?thesis
    proof (cases "ef_level ef = L")
      case False
      with e Some show ?thesis
        unfolding call_level_dict [OF assms] by simp
    next
      case True
      from assms Some have c: "call s ID start end' strand = Inr (Some ef, s')"
        by simp
      from call_SomeD(3) [OF c] True L have "spec_eligible s start L"
        by auto
      with e have "e + offset s < start"
        by (simp add: spec_eligible_def)
      with o w have "e \<le> end'"
        by simp
      moreover from call_SomeD(1) [OF c] have "ef_end ef = end'"
        by simp
      ultimately show ?thesis
        unfolding call_level_dict [OF assms] using Some True by simp
    qed
  qed
qed

section \<open>The claims\<close>

subsection \<open>C1: first fit on the stranded pools\<close>

text \<open>
  C1. A call with strand \<open>+\<close> on an instance that does not filter the positive
  strand scans the levels \<open>1, 2, \<dots>, max_depth\<close> in ascending order; a level is
  eligible iff it has no recorded end or its recorded end plus the offset is less than
  the start. The call assigns the feature to the first eligible level, records the end of
  the feature for that level and returns the feature with the positive arrow style and
  that level; with no eligible level it returns nothing. A call with strand \<open>-\<close>
  on an instance that does not filter the negative strand does the same over the levels
  \<open>-1, -2, \<dots>, -max_depth\<close> with the negative arrow style. The statement is the
  equation between \<open>call\<close>, built from the \<open>while\<close> statements of the source, and
  \<open>spec_scan\<close>, built from the words of the specification; both counters that the
  call increments are part of the state on the right.
\<close>

theorem call_stranded_first_fit:
  "(strand = ''+'' \<and> \<not> filter_pos s \<longrightarrow>
      call s ID start end' strand =
        Inr (spec_scan
               (s\<lparr>count := counter_incr (counter_incr (count s) ''all_features'') ''positive_features''\<rparr>)
               [1..max_depth s] (pos_arrowstyle s) ID start end')) \<and>
   (strand = ''-'' \<and> \<not> filter_neg s \<longrightarrow>
      call s ID start end' strand =
        Inr (spec_scan
               (s\<lparr>count := counter_incr (counter_incr (count s) ''all_features'') ''negative_features''\<rparr>)
               (map uminus [1..max_depth s]) (neg_arrowstyle s) ID start end'))"
  using call_pos [of strand s ID start end'] call_neg [of strand s ID start end'] by blast

text \<open>
  The instance holds a feature ending at 100 on the levels 1 and -1, with offset 10 and
  two levels a pool: a feature starting at 90 goes to the level 2, respectively -2.
\<close>

theorem call_stranded_first_fit_witness:
  "call ((Level_init 2 10 False False True)\<lparr>level_dict := [1 \<mapsto> 100, - 1 \<mapsto> 100]\<rparr>)
        ''B'' 90 150 ''+'' =
     Inr (Some \<lparr>ef_ID = ''B'', ef_start = 90, ef_end = 150,
                ef_arrowstyle = ''-|>,head_width=1,head_length=2'', ef_level = 2\<rparr>,
          (Level_init 2 10 False False True)
            \<lparr>level_dict := [1 \<mapsto> 100, - 1 \<mapsto> 100, 2 \<mapsto> 150],
             count := [''all_features'' \<mapsto> 1, ''positive_features'' \<mapsto> 1]\<rparr>) \<and>
   call ((Level_init 2 10 False False True)\<lparr>level_dict := [1 \<mapsto> 100, - 1 \<mapsto> 100]\<rparr>)
        ''B'' 90 150 ''-'' =
     Inr (Some \<lparr>ef_ID = ''B'', ef_start = 90, ef_end = 150,
                ef_arrowstyle = ''<|-,head_width=1,head_length=2'', ef_level = - 2\<rparr>,
          (Level_init 2 10 False False True)
            \<lparr>level_dict := [1 \<mapsto> 100, - 1 \<mapsto> 100, - 2 \<mapsto> 150],
             count := [''all_features'' \<mapsto> 1, ''negative_features'' \<mapsto> 1]\<rparr>)"
  using call_stranded_first_fit
          [of "''+''" "(Level_init 2 10 False False True)\<lparr>level_dict := [1 \<mapsto> 100, - 1 \<mapsto> 100]\<rparr>"
              "''B''" 90 150]
        call_stranded_first_fit
          [of "''-''" "(Level_init 2 10 False False True)\<lparr>level_dict := [1 \<mapsto> 100, - 1 \<mapsto> 100]\<rparr>"
              "''B''" 90 150]
  by (simp add: Level_init_def spec_scan_def spec_eligible_def counter_incr_def counter_get_def
        upto_rec1)

subsection \<open>C2: the unstranded level is overwritten\<close>

text \<open>
  C2. A call with the unstranded strand \<open>.\<close> on an instance that does not filter
  unstranded features sets the recorded end of the level 0 to the end of the feature,
  whatever was recorded there and with no test against it, and returns the feature with
  the plain style and the level 0. Two such calls in succession both return the level 0,
  and what the second returns and records does not depend on the first: for every first
  feature \<open>(ID1, start1, end1)\<close> the second call returns the same tuple and leaves the
  same level map, in which \<open>end1\<close> does not occur.
\<close>

theorem call_unstranded_overwrite:
  assumes "\<not> filter_unstrand s"
  shows "call s ID start end' ''.'' =
           Inr (Some \<lparr>ef_ID = ID, ef_start = start, ef_end = end',
                      ef_arrowstyle = unstrand_arrowstyle s, ef_level = 0\<rparr>,
                s\<lparr>count := counter_incr (counter_incr (count s) ''all_features'')
                              ''unstranded_features'',
                  level_dict := (level_dict s)(0 \<mapsto> end')\<rparr>) \<and>
         (\<forall>ID1 start1 end1. \<exists>ef1 s1 s2.
            call s ID1 start1 end1 ''.'' = Inr (Some ef1, s1) \<and> ef_level ef1 = 0 \<and>
            level_dict s1 0 = Some end1 \<and>
            call s1 ID start end' ''.'' =
              Inr (Some \<lparr>ef_ID = ID, ef_start = start, ef_end = end',
                         ef_arrowstyle = unstrand_arrowstyle s, ef_level = 0\<rparr>, s2) \<and>
            level_dict s2 = (level_dict s)(0 \<mapsto> end'))"
proof (intro conjI allI)
  show "call s ID start end' ''.'' =
           Inr (Some \<lparr>ef_ID = ID, ef_start = start, ef_end = end',
                      ef_arrowstyle = unstrand_arrowstyle s, ef_level = 0\<rparr>,
                s\<lparr>count := counter_incr (counter_incr (count s) ''all_features'')
                              ''unstranded_features'',
                  level_dict := (level_dict s)(0 \<mapsto> end')\<rparr>)"
    using assms by (rule call_unstrand [OF refl])
next
  fix ID1 :: string and start1 end1 :: int
  define s1 where "s1 = s\<lparr>count := counter_incr (counter_incr (count s) ''all_features'')
                              ''unstranded_features'',
                  level_dict := (level_dict s)(0 \<mapsto> end1)\<rparr>"
  have f1: "\<not> filter_unstrand s1"
    using assms by (simp add: s1_def)
  have c1: "call s ID1 start1 end1 ''.'' =
           Inr (Some \<lparr>ef_ID = ID1, ef_start = start1, ef_end = end1,
                      ef_arrowstyle = unstrand_arrowstyle s, ef_level = 0\<rparr>, s1)"
    unfolding s1_def using assms by (rule call_unstrand [OF refl])
  have c2: "call s1 ID start end' ''.'' =
           Inr (Some \<lparr>ef_ID = ID, ef_start = start, ef_end = end',
                      ef_arrowstyle = unstrand_arrowstyle s, ef_level = 0\<rparr>,
                s1\<lparr>count := counter_incr (counter_incr (count s1) ''all_features'')
                              ''unstranded_features'',
                  level_dict := (level_dict s1)(0 \<mapsto> end')\<rparr>)"
    using call_unstrand [OF refl f1, of ID start end'] by (simp add: s1_def)
  have l1: "level_dict s1 0 = Some end1"
    by (simp add: s1_def)
  have l2: "level_dict (s1\<lparr>count := counter_incr (counter_incr (count s1) ''all_features'')
                              ''unstranded_features'',
                  level_dict := (level_dict s1)(0 \<mapsto> end')\<rparr>) = (level_dict s)(0 \<mapsto> end')"
    by (simp add: s1_def)
  from c1 c2 l1 l2
  show "\<exists>ef1 s1 s2.
            call s ID1 start1 end1 ''.'' = Inr (Some ef1, s1) \<and> ef_level ef1 = 0 \<and>
            level_dict s1 0 = Some end1 \<and>
            call s1 ID start end' ''.'' =
              Inr (Some \<lparr>ef_ID = ID, ef_start = start, ef_end = end',
                         ef_arrowstyle = unstrand_arrowstyle s, ef_level = 0\<rparr>, s2) \<and>
            level_dict s2 = (level_dict s)(0 \<mapsto> end')"
    by (intro exI [of _ "\<lparr>ef_ID = ID1, ef_start = start1, ef_end = end1,
                      ef_arrowstyle = unstrand_arrowstyle s, ef_level = 0\<rparr>"] exI [of _ s1]
          exI [of _ "s1\<lparr>count := counter_incr (counter_incr (count s1) ''all_features'')
                              ''unstranded_features'',
                  level_dict := (level_dict s1)(0 \<mapsto> end')\<rparr>"]) simp
qed

text \<open>The features X(0, 50) and Y(10, 20): Y takes the level 0 over from X.\<close>

theorem call_unstranded_overwrite_witness:
  "\<not> filter_unstrand (Level_init 2 10 False False False) \<and>
   call (Level_init 2 10 False False False) ''X'' 0 50 ''.'' =
     Inr (Some \<lparr>ef_ID = ''X'', ef_start = 0, ef_end = 50, ef_arrowstyle = ''-'', ef_level = 0\<rparr>,
          (Level_init 2 10 False False False)
            \<lparr>count := [''all_features'' \<mapsto> 1, ''unstranded_features'' \<mapsto> 1],
             level_dict := [0 \<mapsto> 50]\<rparr>) \<and>
   call ((Level_init 2 10 False False False)
            \<lparr>count := [''all_features'' \<mapsto> 1, ''unstranded_features'' \<mapsto> 1],
             level_dict := [0 \<mapsto> 50]\<rparr>) ''Y'' 10 20 ''.'' =
     Inr (Some \<lparr>ef_ID = ''Y'', ef_start = 10, ef_end = 20, ef_arrowstyle = ''-'', ef_level = 0\<rparr>,
          (Level_init 2 10 False False False)
            \<lparr>count := [''all_features'' \<mapsto> 2, ''unstranded_features'' \<mapsto> 2],
             level_dict := [0 \<mapsto> 20]\<rparr>)"
  using call_unstranded_overwrite [of "Level_init 2 10 False False False" "''X''" 0 50]
        call_unstranded_overwrite
          [of "(Level_init 2 10 False False False)
                 \<lparr>count := [''all_features'' \<mapsto> 1, ''unstranded_features'' \<mapsto> 1],
                  level_dict := [0 \<mapsto> 50]\<rparr>" "''Y''" 10 20]
  by (simp add: Level_init_def counter_incr_def counter_get_def)

subsection \<open>C3: strands other than the three markers\<close>

text \<open>
  C3 as stated says that every strand that is neither \<open>+\<close> nor \<open>-\<close> takes the
  unstranded branch when unstranded features are not filtered. The third branch of the
  method tests \<open>strand == "."\<close>: with the strand \<open>x\<close> the call returns \<open>None\<close>
  and counts the feature among all features only.
\<close>

theorem call_unrecognized_strand_counterexample:
  "''x'' \<noteq> ''+'' \<and> ''x'' \<noteq> ''-'' \<and> \<not> filter_unstrand (Level_init 10 10 False False False) \<and>
   call (Level_init 10 10 False False False) ''f'' 0 50 ''x'' =
     Inr (None, (Level_init 10 10 False False False)\<lparr>count := [''all_features'' \<mapsto> 1]\<rparr>)"
  by (simp add: call_def Let_def Level_init_def counter_incr_def counter_get_def)

text \<open>
  C3, amended. On an instance that does not filter unstranded features, the strand
  \<open>.\<close> takes the unstranded branch: the counter of unstranded features is incremented
  and the feature returned with the plain style and the level 0. Any other strand that is
  neither \<open>+\<close> nor \<open>-\<close> enters no branch: the call returns nothing, increments the
  counter of all features only and leaves the level map as it was.
\<close>

theorem call_unstranded_only_dot:
  assumes "\<not> filter_unstrand s"
  shows "(strand = ''.'' \<longrightarrow>
            call s ID start end' strand =
              Inr (Some \<lparr>ef_ID = ID, ef_start = start, ef_end = end',
                         ef_arrowstyle = unstrand_arrowstyle s, ef_level = 0\<rparr>,
                   s\<lparr>count := counter_incr (counter_incr (count s) ''all_features'')
                                 ''unstranded_features'',
                     level_dict := (level_dict s)(0 \<mapsto> end')\<rparr>)) \<and>
         (strand \<noteq> ''+'' \<and> strand \<noteq> ''-'' \<and> strand \<noteq> ''.'' \<longrightarrow>
            call s ID start end' strand =
              Inr (None, s\<lparr>count := counter_incr (count s) ''all_features''\<rparr>))"
  using call_unstrand [of strand s ID start end'] call_none [of strand s ID start end'] assms
  by blast

theorem call_unstranded_only_dot_witness:
  "\<not> filter_unstrand (Level_init 10 10 False False False) \<and>
   call (Level_init 10 10 False False False) ''f'' 0 50 ''.'' =
     Inr (Some \<lparr>ef_ID = ''f'', ef_start = 0, ef_end = 50, ef_arrowstyle = ''-'', ef_level = 0\<rparr>,
          (Level_init 10 10 False False False)
            \<lparr>count := [''all_features'' \<mapsto> 1, ''unstranded_features'' \<mapsto> 1],
             level_dict := [0 \<mapsto> 50]\<rparr>) \<and>
   call (Level_init 10 10 False False False) ''f'' 0 50 ''?'' =
     Inr (None, (Level_init 10 10 False False False)\<lparr>count := [''all_features'' \<mapsto> 1]\<rparr>)"
  using call_unstranded_only_dot [of "Level_init 10 10 False False False" "''.''" "''f''" 0 50]
        call_unstranded_only_dot [of "Level_init 10 10 False False False" "''?''" "''f''" 0 50]
  by (simp add: Level_init_def counter_incr_def counter_get_def)

subsection \<open>C5: the returned level is within the pools\<close>

text \<open>
  C5. Every feature that a call returns has its level in
  \<open>{-max_depth, \<dots>, -1} \<union> {0} \<union> {1, \<dots>, max_depth}\<close>.
\<close>

theorem call_level_bounds:
  assumes "call s ID start end' strand = Inr (Some ef, s')"
  shows "ef_level ef \<in> {- max_depth s..- 1} \<union> {0} \<union> {1..max_depth s}"
  using call_SomeD(3) [OF assms] by auto

text \<open>The second feature of two overlapping ones, with three levels a pool.\<close>

theorem call_level_bounds_witness:
  "call ((Level_init 3 10 False False True)\<lparr>level_dict := [1 \<mapsto> 100]\<rparr>) ''B'' 90 150 ''+'' =
     Inr (Some \<lparr>ef_ID = ''B'', ef_start = 90, ef_end = 150,
                ef_arrowstyle = ''-|>,head_width=1,head_length=2'', ef_level = 2\<rparr>,
          (Level_init 3 10 False False True)
            \<lparr>level_dict := [1 \<mapsto> 100, 2 \<mapsto> 150],
             count := [''all_features'' \<mapsto> 1, ''positive_features'' \<mapsto> 1]\<rparr>) \<and>
   (2 :: int) \<in> {- 3..- 1} \<union> {0} \<union> {1..3}"
proof -
  have c: "call ((Level_init 3 10 False False True)\<lparr>level_dict := [1 \<mapsto> 100]\<rparr>) ''B'' 90 150 ''+'' =
     Inr (Some \<lparr>ef_ID = ''B'', ef_start = 90, ef_end = 150,
                ef_arrowstyle = ''-|>,head_width=1,head_length=2'', ef_level = 2\<rparr>,
          (Level_init 3 10 False False True)
            \<lparr>level_dict := [1 \<mapsto> 100, 2 \<mapsto> 150],
             count := [''all_features'' \<mapsto> 1, ''positive_features'' \<mapsto> 1]\<rparr>)"
    by (simp add: call_pos Level_init_def spec_scan_def spec_eligible_def counter_incr_def
          counter_get_def upto_rec1)
  from c call_level_bounds [OF c] show ?thesis
    by (simp add: Level_init_def)
qed

subsection \<open>C7: filtered classes\<close>

text \<open>
  C7. A call with strand \<open>+\<close> on an instance that filters the positive strand, with
  strand \<open>-\<close> on one that filters the negative strand, or with any other strand on one
  that filters unstranded features, returns nothing, increments the counter of all
  features and no other counter, and leaves the level map, as every other attribute,
  unchanged.
\<close>

theorem call_filtered:
  assumes "strand = ''+'' \<and> filter_pos s \<or> strand = ''-'' \<and> filter_neg s \<or>
           strand \<noteq> ''+'' \<and> strand \<noteq> ''-'' \<and> filter_unstrand s"
  shows "\<exists>s'. call s ID start end' strand = Inr (None, s') \<and>
           s' = s\<lparr>count := counter_incr (count s) ''all_features''\<rparr> \<and>
           level_dict s' = level_dict s \<and>
           counter_get (count s') ''all_features'' = counter_get (count s) ''all_features'' + 1 \<and>
           (\<forall>k. k \<noteq> ''all_features'' \<longrightarrow> counter_get (count s') k = counter_get (count s) k)"
proof -
  from assms have "strand = ''+'' \<longrightarrow> filter_pos s" and "strand = ''-'' \<longrightarrow> filter_neg s"
    and "strand = ''.'' \<longrightarrow> filter_unstrand s"
    by auto
  then have "call s ID start end' strand =
      Inr (None, s\<lparr>count := counter_incr (count s) ''all_features''\<rparr>)"
    by (rule call_none)
  then show ?thesis
    by (simp add: counter_get_incr)
qed

text \<open>A feature of the negative strand on an instance that filters it.\<close>

theorem call_filtered_witness:
  "filter_neg (Level_init 2 10 False True True) \<and>
   call (Level_init 2 10 False True True) ''g'' 5 60 ''-'' =
     Inr (None, (Level_init 2 10 False True True)\<lparr>count := [''all_features'' \<mapsto> 1]\<rparr>) \<and>
   counter_get [''all_features'' \<mapsto> 1] ''negative_features'' = 0"
  using call_filtered [of "''-''" "Level_init 2 10 False True True" "''g''" 5 60]
  by (auto simp: Level_init_def counter_incr_def counter_get_def)

subsection \<open>C9: a call always returns\<close>

text \<open>
  C9. For every instance, identifier, start, end and strand, a call returns: it raises no
  exception (the result is never \<open>Inl\<close>) and each \<open>while\<close> statement ends (\<open>pos_loop\<close> and
  \<open>neg_loop\<close> are total functions), and what it returns is either a feature or
  \<open>None\<close>.
\<close>

theorem call_total:
  "\<exists>s'. call s ID start end' strand = Inr (None, s') \<or>
        (\<exists>ef. call s ID start end' strand = Inr (Some ef, s'))"
proof -
  consider (pos) "strand = ''+''" "\<not> filter_pos s"
    | (neg) "strand = ''-''" "\<not> filter_neg s"
    | (unstrand) "strand = ''.''" "\<not> filter_unstrand s"
    | (none) "strand = ''+'' \<longrightarrow> filter_pos s" "strand = ''-'' \<longrightarrow> filter_neg s"
        "strand = ''.'' \<longrightarrow> filter_unstrand s"
    by blast
  then obtain r s' where "call s ID start end' strand = Inr (r, s')"
  proof cases
    case pos
    with that show ?thesis unfolding call_pos [OF pos] by (metis surj_pair)
  next
    case neg
    with that show ?thesis unfolding call_neg [OF neg] by (metis surj_pair)
  next
    case unstrand
    with that show ?thesis unfolding call_unstrand [OF unstrand] by blast
  next
    case none
    with that show ?thesis unfolding call_none [OF none] by blast
  qed
  then show ?thesis
    by (cases r) auto
qed

subsection \<open>C10: the fields of the feature pass through\<close>

text \<open>
  C10. The feature that a call returns has the identifier, the start and the end that
  the call was given.
\<close>

theorem call_passes_fields:
  assumes "call s ID start end' strand = Inr (Some ef, s')"
  shows "ef_ID ef = ID \<and> ef_start ef = start \<and> ef_end ef = end'"
  using assms by (rule call_SomeD(1))

text \<open>An unstranded feature on an instance that draws them.\<close>

theorem call_passes_fields_witness:
  "call (Level_init 2 10 False False False) ''u1'' 7 9 ''.'' =
     Inr (Some \<lparr>ef_ID = ''u1'', ef_start = 7, ef_end = 9, ef_arrowstyle = ''-'', ef_level = 0\<rparr>,
          (Level_init 2 10 False False False)
            \<lparr>count := [''all_features'' \<mapsto> 1, ''unstranded_features'' \<mapsto> 1],
             level_dict := [0 \<mapsto> 9]\<rparr>) \<and>
   ef_ID \<lparr>ef_ID = ''u1'', ef_start = 7, ef_end = 9, ef_arrowstyle = ''-'', ef_level = 0\<rparr> = ''u1'' \<and>
   ef_start \<lparr>ef_ID = ''u1'', ef_start = 7, ef_end = 9, ef_arrowstyle = ''-'', ef_level = 0\<rparr> = 7 \<and>
   ef_end \<lparr>ef_ID = ''u1'', ef_start = 7, ef_end = 9, ef_arrowstyle = ''-'', ef_level = 0\<rparr> = 9"
proof -
  have c: "call (Level_init 2 10 False False False) ''u1'' 7 9 ''.'' =
     Inr (Some \<lparr>ef_ID = ''u1'', ef_start = 7, ef_end = 9, ef_arrowstyle = ''-'', ef_level = 0\<rparr>,
          (Level_init 2 10 False False False)
            \<lparr>count := [''all_features'' \<mapsto> 1, ''unstranded_features'' \<mapsto> 1],
             level_dict := [0 \<mapsto> 9]\<rparr>)"
    by (simp add: call_unstrand Level_init_def counter_incr_def counter_get_def)
  from c call_passes_fields [OF c] show ?thesis
    by simp
qed

subsection \<open>C4: spacing on the stranded levels\<close>

text \<open>
  C4. Take any sequence of calls on an instance, a feature \<open>ef1\<close> that one of them
  returned, and a further call that returns a feature \<open>ef2\<close> on the same level, which is
  not the level 0. Then before that call the level has a recorded end, which is the end of
  the feature assigned to the level last, and the start of the second feature is beyond it
  by more than the offset: \<open>recorded_end + offset < start\<close>.
\<close>

theorem calls_spacing:
  assumes "calls s cs = Inr (rs, s1)" and "Some ef1 \<in> set rs"
    and "call s1 ID start end' strand = Inr (Some ef2, s2)"
    and "ef_level ef2 = ef_level ef1" and "ef_level ef2 \<noteq> 0"
  shows "\<exists>recorded_end. last_end_on (ef_level ef2) rs = Some recorded_end \<and>
           level_dict s1 (ef_level ef2) = Some recorded_end \<and>
           recorded_end + offset s < start"
proof -
  from last_end_on_mem [OF assms(2)] assms(4)
  obtain e where e: "last_end_on (ef_level ef2) rs = Some e"
    by auto
  with calls_level_dict [OF assms(1), of "ef_level ef2"]
  have ld: "level_dict s1 (ef_level ef2) = Some e"
    by simp
  from call_SomeD(3) [OF assms(3)] assms(5)
  have "spec_eligible s1 start (ef_level ef2)"
    by auto
  with ld have "e + offset s1 < start"
    by (simp add: spec_eligible_def)
  with calls_offset [OF assms(1)] e ld show ?thesis
    by simp
qed

text \<open>
  The first scenario of the specification, with offset 10 and two levels a pool: A(0, 100)
  and B(90, 150) take the levels 1 and 2, and C(200, 250) comes back to the level 1,
  where 100 is recorded.
\<close>

theorem calls_spacing_witness:
  "calls (Level_init 2 10 False False True) [(''A'', 0, 100, ''+''), (''B'', 90, 150, ''+'')] =
     Inr ([Some \<lparr>ef_ID = ''A'', ef_start = 0, ef_end = 100,
                  ef_arrowstyle = ''-|>,head_width=1,head_length=2'', ef_level = 1\<rparr>,
           Some \<lparr>ef_ID = ''B'', ef_start = 90, ef_end = 150,
                  ef_arrowstyle = ''-|>,head_width=1,head_length=2'', ef_level = 2\<rparr>],
          (Level_init 2 10 False False True)
            \<lparr>level_dict := [1 \<mapsto> 100, 2 \<mapsto> 150],
             count := [''all_features'' \<mapsto> 2, ''positive_features'' \<mapsto> 2]\<rparr>) \<and>
   call ((Level_init 2 10 False False True)
            \<lparr>level_dict := [1 \<mapsto> 100, 2 \<mapsto> 150],
             count := [''all_features'' \<mapsto> 2, ''positive_features'' \<mapsto> 2]\<rparr>)
        ''C'' 200 250 ''+'' =
     Inr (Some \<lparr>ef_ID = ''C'', ef_start = 200, ef_end = 250,
                ef_arrowstyle = ''-|>,head_width=1,head_length=2'', ef_level = 1\<rparr>,
          (Level_init 2 10 False False True)
            \<lparr>level_dict := [1 \<mapsto> 250, 2 \<mapsto> 150],
             count := [''all_features'' \<mapsto> 3, ''positive_features'' \<mapsto> 3]\<rparr>) \<and>
   last_end_on 1
     [Some \<lparr>ef_ID = ''A'', ef_start = 0, ef_end = 100,
            ef_arrowstyle = ''-|>,head_width=1,head_length=2'', ef_level = 1\<rparr>,
      Some \<lparr>ef_ID = ''B'', ef_start = 90, ef_end = 150,
            ef_arrowstyle = ''-|>,head_width=1,head_length=2'', ef_level = 2\<rparr>] = Some 100 \<and>
   (100 :: int) + offset (Level_init 2 10 False False True) < 200"
proof -
  let ?s = "Level_init 2 10 False False True"
  let ?A = "\<lparr>ef_ID = ''A'', ef_start = 0, ef_end = 100,
              ef_arrowstyle = ''-|>,head_width=1,head_length=2'', ef_level = 1\<rparr>"
  let ?B = "\<lparr>ef_ID = ''B'', ef_start = 90, ef_end = 150,
              ef_arrowstyle = ''-|>,head_width=1,head_length=2'', ef_level = 2\<rparr>"
  let ?C = "\<lparr>ef_ID = ''C'', ef_start = 200, ef_end = 250,
              ef_arrowstyle = ''-|>,head_width=1,head_length=2'', ef_level = 1\<rparr>"
  let ?s1 = "?s\<lparr>level_dict := [1 \<mapsto> 100, 2 \<mapsto> 150],
                count := [''all_features'' \<mapsto> 2, ''positive_features'' \<mapsto> 2]\<rparr>"
  let ?s2 = "?s\<lparr>level_dict := [1 \<mapsto> 250, 2 \<mapsto> 150],
                count := [''all_features'' \<mapsto> 3, ''positive_features'' \<mapsto> 3]\<rparr>"
  have cs: "calls ?s [(''A'', 0, 100, ''+''), (''B'', 90, 150, ''+'')] = Inr ([Some ?A, Some ?B], ?s1)"
    by (simp add: call_pos Level_init_def spec_scan_def spec_eligible_def counter_incr_def
          counter_get_def upto_rec1)
  have c: "call ?s1 ''C'' 200 250 ''+'' = Inr (Some ?C, ?s2)"
    by (simp add: call_pos Level_init_def spec_scan_def spec_eligible_def counter_incr_def
          counter_get_def upto_rec1 fun_upd_twist)
  have m: "Some ?A \<in> set [Some ?A, Some ?B]"
    by simp
  from calls_spacing [OF cs m c] cs c show ?thesis
    by simp
qed

subsection \<open>C6: the counters\<close>

text \<open>
  C6. Every sequence of calls on an instance returns, and after it the counter of all
  features has grown by the number of calls, whatever they returned: on an instance
  just built it is the number of calls. The counter of a class has grown by the number
  of calls that entered the branch of the class, that is, whose strand is the marker of
  the class on an instance that does not filter the class; so one call increments it by
  one if it enters the branch and not at all otherwise, whether the feature is assigned
  or dropped.
\<close>

theorem calls_counters:
  "\<exists>rs s'. calls s cs = Inr (rs, s') \<and>
     counter_get (count s') ''all_features'' =
       counter_get (count s) ''all_features'' + int (length cs) \<and>
     counter_get (count s') ''positive_features'' =
       counter_get (count s) ''positive_features'' + int (length (filter (enters_pos s) cs)) \<and>
     counter_get (count s') ''negative_features'' =
       counter_get (count s) ''negative_features'' + int (length (filter (enters_neg s) cs)) \<and>
     counter_get (count s') ''unstranded_features'' =
       counter_get (count s) ''unstranded_features'' +
       int (length (filter (enters_unstrand s) cs)) \<and>
     (s = Level_init (max_depth s) (offset s) (filter_pos s) (filter_neg s) (filter_unstrand s) \<longrightarrow>
        counter_get (count s') ''all_features'' = int (length cs))"
proof -
  obtain rs s' where r: "calls s cs = Inr (rs, s')"
    using calls_Inr by blast
  have "s = Level_init (max_depth s) (offset s) (filter_pos s) (filter_neg s) (filter_unstrand s)
          \<Longrightarrow> counter_get (count s) ''all_features'' = 0"
    by (cases s) (simp add: Level_init_def counter_get_def)
  with calls_count [OF r] r show ?thesis
    by (intro exI [of _ rs] exI [of _ s']) simp
qed

text \<open>
  The second scenario of the specification: one level a pool, A(0, 100) is assigned and
  B(50, 80) dropped, and both are counted as features and as positive features.
\<close>

theorem calls_counters_witness:
  "calls (Level_init 1 10 False False True) [(''A'', 0, 100, ''+''), (''B'', 50, 80, ''+'')] =
     Inr ([Some \<lparr>ef_ID = ''A'', ef_start = 0, ef_end = 100,
                  ef_arrowstyle = ''-|>,head_width=1,head_length=2'', ef_level = 1\<rparr>, None],
          (Level_init 1 10 False False True)
            \<lparr>level_dict := [1 \<mapsto> 100],
             count := [''all_features'' \<mapsto> 2, ''positive_features'' \<mapsto> 2]\<rparr>) \<and>
   counter_get [''all_features'' \<mapsto> 2, ''positive_features'' \<mapsto> 2] ''all_features'' = 2 \<and>
   counter_get [''all_features'' \<mapsto> 2, ''positive_features'' \<mapsto> 2] ''positive_features'' = 2 \<and>
   counter_get [''all_features'' \<mapsto> 2, ''positive_features'' \<mapsto> 2] ''negative_features'' = 0"
  using calls_counters [of "Level_init 1 10 False False True"
          "[(''A'', 0, 100, ''+''), (''B'', 50, 80, ''+'')]"]
  by (simp add: call_pos Level_init_def spec_scan_def spec_eligible_def counter_incr_def
        counter_get_def upto_rec1)

subsection \<open>C8: the life of the level map\<close>

text \<open>
  C8 as stated says that the recorded end of an existing level only advances. The level 0
  is written by every unstranded feature without a test: after X(0, 50) and Y(10, 20)
  its recorded end has gone from 50 down to 20.
\<close>

theorem level_zero_end_decreases_counterexample:
  "call (Level_init 2 10 False False False) ''X'' 0 50 ''.'' =
     Inr (Some \<lparr>ef_ID = ''X'', ef_start = 0, ef_end = 50, ef_arrowstyle = ''-'', ef_level = 0\<rparr>,
          (Level_init 2 10 False False False)
            \<lparr>count := [''all_features'' \<mapsto> 1, ''unstranded_features'' \<mapsto> 1],
             level_dict := [0 \<mapsto> 50]\<rparr>) \<and>
   call ((Level_init 2 10 False False False)
            \<lparr>count := [''all_features'' \<mapsto> 1, ''unstranded_features'' \<mapsto> 1],
             level_dict := [0 \<mapsto> 50]\<rparr>) ''Y'' 10 20 ''.'' =
     Inr (Some \<lparr>ef_ID = ''Y'', ef_start = 10, ef_end = 20, ef_arrowstyle = ''-'', ef_level = 0\<rparr>,
          (Level_init 2 10 False False False)
            \<lparr>count := [''all_features'' \<mapsto> 2, ''unstranded_features'' \<mapsto> 2],
             level_dict := [0 \<mapsto> 20]\<rparr>) \<and>
   [0 \<mapsto> 50 :: int] (0 :: int) = Some 50 \<and> [0 \<mapsto> 20 :: int] (0 :: int) = Some 20 \<and>
   (20 :: int) < 50"
  by (simp add: call_unstrand Level_init_def counter_incr_def counter_get_def)

text \<open>
  C8, amended. Across every sequence of calls the level map keeps all its keys: a level
  that has a recorded end has one ever after. On a level other than 0 the recorded end
  never decreases, when the offset is not negative and no feature of the sequence ends
  before it starts, as the data model of the specification has it. The level 0 is left
  out: each unstranded feature overwrites its recorded end.
\<close>

theorem calls_level_dict_grows:
  assumes "calls s cs = Inr (rs, s')"
  shows "dom (level_dict s) \<subseteq> dom (level_dict s') \<and>
         (0 \<le> offset s \<and> (\<forall>(ID, start, end', strand) \<in> set cs. start \<le> end') \<longrightarrow>
            (\<forall>L e. L \<noteq> 0 \<and> level_dict s L = Some e \<longrightarrow>
               (\<exists>e'. level_dict s' L = Some e' \<and> e \<le> e')))"
  using assms
proof (induction cs arbitrary: s rs)
  case Nil
  then show ?case by simp
next
  case (Cons c cs)
  obtain ID start end' strand where c: "c = (ID, start, end', strand)"
    by (cases c) auto
  from Cons.prems obtain r s1 rs' where r: "call s ID start end' strand = Inr (r, s1)"
    and rs': "calls s1 cs = Inr (rs', s')"
    unfolding c by (rule calls_Cons)
  note IH = Cons.IH [OF rs']
  have d: "dom (level_dict s) \<subseteq> dom (level_dict s')"
    using call_level_dict_mono(1) [OF r] IH by blast
  have m: "\<exists>e'. level_dict s' L = Some e' \<and> e \<le> e'"
    if o: "0 \<le> offset s" and w: "\<forall>(ID, start, end', strand) \<in> set (c # cs). start \<le> end'"
      and L: "L \<noteq> 0" and e: "level_dict s L = Some e" for L e
  proof -
    from w have "start \<le> end'"
      by (simp add: c)
    from call_level_dict_mono(2) [OF r o this L e]
    obtain e1 where e1: "level_dict s1 L = Some e1" and le: "e \<le> e1"
      by blast
    from o call_offset [OF r] have "0 \<le> offset s1"
      by simp
    moreover from w have "\<forall>(ID, start, end', strand) \<in> set cs. start \<le> end'"
      by simp
    ultimately obtain e' where "level_dict s' L = Some e'" and "e1 \<le> e'"
      using IH L e1 by blast
    with le show ?thesis
      by auto
  qed
  from d m show ?case
    by blast
qed

text \<open>
  The first scenario of the specification: the level 1 goes from 100 to 250, the level 2
  appears and stays.
\<close>

theorem calls_level_dict_grows_witness:
  "calls ((Level_init 2 10 False False True)\<lparr>level_dict := [1 \<mapsto> 100]\<rparr>)
         [(''B'', 90, 150, ''+''), (''C'', 200, 250, ''+'')] =
     Inr ([Some \<lparr>ef_ID = ''B'', ef_start = 90, ef_end = 150,
                  ef_arrowstyle = ''-|>,head_width=1,head_length=2'', ef_level = 2\<rparr>,
           Some \<lparr>ef_ID = ''C'', ef_start = 200, ef_end = 250,
                  ef_arrowstyle = ''-|>,head_width=1,head_length=2'', ef_level = 1\<rparr>],
          (Level_init 2 10 False False True)
            \<lparr>level_dict := [1 \<mapsto> 250, 2 \<mapsto> 150],
             count := [''all_features'' \<mapsto> 2, ''positive_features'' \<mapsto> 2]\<rparr>) \<and>
   dom [1 \<mapsto> 100 :: int] \<subseteq> dom [1 \<mapsto> 250 :: int, (2 :: int) \<mapsto> 150] \<and>
   (0 :: int) \<le> 10 \<and> (90 :: int) \<le> 150 \<and> (200 :: int) \<le> 250 \<and>
   [1 \<mapsto> 100 :: int] (1 :: int) = Some 100 \<and>
   [1 \<mapsto> 250 :: int, (2 :: int) \<mapsto> 150] 1 = Some 250 \<and> (100 :: int) \<le> 250"
proof -
  let ?s = "(Level_init 2 10 False False True)\<lparr>level_dict := [1 \<mapsto> 100]\<rparr>"
  have cs: "calls ?s [(''B'', 90, 150, ''+''), (''C'', 200, 250, ''+'')] =
     Inr ([Some \<lparr>ef_ID = ''B'', ef_start = 90, ef_end = 150,
                  ef_arrowstyle = ''-|>,head_width=1,head_length=2'', ef_level = 2\<rparr>,
           Some \<lparr>ef_ID = ''C'', ef_start = 200, ef_end = 250,
                  ef_arrowstyle = ''-|>,head_width=1,head_length=2'', ef_level = 1\<rparr>],
          (Level_init 2 10 False False True)
            \<lparr>level_dict := [1 \<mapsto> 250, 2 \<mapsto> 150],
             count := [''all_features'' \<mapsto> 2, ''positive_features'' \<mapsto> 2]\<rparr>)"
    by (simp add: call_pos Level_init_def spec_scan_def spec_eligible_def counter_incr_def
          counter_get_def upto_rec1 fun_upd_twist)
  from calls_level_dict_grows [OF cs] cs show ?thesis
    by (simp add: Level_init_def)
qed

end
